theory Spec2Isabelle
  imports Complex_Main "HOL-Library.Multiset"
begin

section \<open>Instant-runoff tabulation of \<open>src/src/App.js\<close>\<close>

text \<open>
  The theory embeds the function \<open>calculateRankedChoiceWinner\<close> (lines 689 to 734 of
  \<open>src/src/App.js\<close>), called at line 546 with the options of a session and the ballots
  cast. Candidate identifiers and ballot entries are JavaScript strings, as the
  application creates them (\<open>newOption.trim()\<close>, line 388); a ballot is an array of
  strings and the catalog is an array of strings. Strings are compared by equality only,
  so they are modelled by \<open>string\<close>; tallies are natural numbers (the counts stay far
  below \<open>2^53\<close>, where JavaScript numbers are exact). The function returns a JavaScript
  value (a string, or \<open>undefined\<close> when an array is read past its end) or throws: the
  result type is \<open>js_error + js_value\<close>.
\<close>

subsection \<open>Values\<close>

datatype js_error = TypeError

datatype js_value = Str string | Undefined

type_synonym ballot = "string list"

text \<open>
  \<open>firstPlaceVotes\<close> is a plain object created by \<open>{}\<close>. Its own properties are kept
  in creation order as a list of pairs of a key and a number.
\<close>

type_synonym tally_object = "(string \<times> nat) list"

text \<open>The string returned at line 690.\<close>

definition sentinel :: string where
  "sentinel = ''No votes submitted yet.''"

text \<open>
  JavaScript truthiness of a string, as tested by \<open>if (firstChoice)\<close> and
  \<open>if (winner)\<close>: the empty string is falsy (and so is \<open>undefined\<close>, which the
  model writes as \<open>None\<close>).
\<close>

definition truthy :: "string \<Rightarrow> bool" where
  "truthy s = (s \<noteq> [])"

subsection \<open>Property keys of a plain object\<close>

text \<open>
  An object created by \<open>{}\<close> inherits the accessor \<open>__proto__\<close> from
  \<open>Object.prototype\<close>. An assignment \<open>obj['__proto__'] = n\<close> of a number calls the
  inherited setter, which ignores every value that is neither an object nor null: no own
  property is created. Reading \<open>obj['__proto__']\<close> gives \<open>Object.prototype\<close>,
  which is not a number.
\<close>

definition proto_key :: string where
  "proto_key = ''__proto__''"

text \<open>
  \<open>Object.entries\<close> lists the own keys that are array indices (the canonical decimal
  strings of the integers from 0 to \<open>2^32 - 2\<close>) first, in ascending numeric order, and
  the other string keys after them in creation order (the order of
  \<open>OrdinaryOwnPropertyKeys\<close> in ECMAScript).
\<close>

definition is_digit :: "char \<Rightarrow> bool" where
  "is_digit c = (48 \<le> (of_char c :: nat) \<and> (of_char c :: nat) \<le> 57)"

definition digit_value :: "char \<Rightarrow> nat" where
  "digit_value c = (of_char c :: nat) - 48"

definition index_value :: "string \<Rightarrow> nat" where
  "index_value s = foldl (\<lambda>n c. 10 * n + digit_value c) 0 s"

definition is_array_index :: "string \<Rightarrow> bool" where
  "is_array_index s =
     (case s of
        [] \<Rightarrow> False
      | c # cs \<Rightarrow>
          list_all is_digit s \<and> (if cs = [] then True else c \<noteq> CHR ''0'')
          \<and> index_value s < 4294967295)"

text \<open>\<open>obj[k]\<close> for a key written before, or for \<open>__proto__\<close>.\<close>

definition obj_get :: "tally_object \<Rightarrow> string \<Rightarrow> nat option" where
  "obj_get obj k = map_of obj k"

text \<open>Writing an own property: an existing key keeps its place, a new key goes last.\<close>

fun obj_update :: "string \<Rightarrow> nat \<Rightarrow> tally_object \<Rightarrow> tally_object" where
  "obj_update k v [] = [(k, v)]"
| "obj_update k v (p # ps) = (if fst p = k then (k, v) # ps else p # obj_update k v ps)"

text \<open>\<open>obj[k] = v\<close> for a number \<open>v\<close>.\<close>

definition obj_set :: "tally_object \<Rightarrow> string \<Rightarrow> nat \<Rightarrow> tally_object" where
  "obj_set obj k v = (if k = proto_key then obj else obj_update k v obj)"

text \<open>
  \<open>obj[k]++\<close>. The code applies it only to a member of \<open>currentOptions\<close>, each of
  which was assigned 0 before (lemma \<open>get_firstPlaceVotes\<close> below): the key is missing
  only when it is \<open>__proto__\<close>, where the increment computes \<open>NaN\<close> from
  \<open>Object.prototype\<close> and the setter ignores it.
\<close>

definition obj_increment :: "tally_object \<Rightarrow> string \<Rightarrow> tally_object" where
  "obj_increment obj k =
     (case obj_get obj k of
        Some n \<Rightarrow> obj_set obj k (n + 1)
      | None \<Rightarrow> obj)"

definition object_entries :: "tally_object \<Rightarrow> (string \<times> nat) list" where
  "object_entries obj =
     sort_key (\<lambda>e. index_value (fst e)) (filter (\<lambda>e. is_array_index (fst e)) obj)
     @ filter (\<lambda>e. \<not> is_array_index (fst e)) obj"

subsection \<open>One round of the loop\<close>

text \<open>Lines 699 and 700: every current option gets the tally 0.\<close>

definition init_votes :: "string list \<Rightarrow> tally_object" where
  "init_votes currentOptions = foldl (\<lambda>obj option. obj_set obj option 0) [] currentOptions"

text \<open>Line 703: \<open>vote.find(choice => currentOptions.includes(choice))\<close>.\<close>

definition first_choice :: "string list \<Rightarrow> ballot \<Rightarrow> string option" where
  "first_choice currentOptions vote = find (\<lambda>choice. choice \<in> set currentOptions) vote"

text \<open>Lines 703 to 706: the body of \<open>allVotes.forEach\<close>.\<close>

definition count_vote :: "string list \<Rightarrow> tally_object \<Rightarrow> ballot \<Rightarrow> tally_object" where
  "count_vote currentOptions obj vote =
     (case first_choice currentOptions vote of
        None \<Rightarrow> obj
      | Some firstChoice \<Rightarrow>
          if truthy firstChoice then obj_increment obj firstChoice else obj)"

definition firstPlaceVotes :: "string list \<Rightarrow> ballot list \<Rightarrow> tally_object" where
  "firstPlaceVotes currentOptions allVotes =
     foldl (count_vote currentOptions) (init_votes currentOptions) allVotes"

text \<open>Lines 709 and 710: \<open>allVotes.length / 2\<close>, a division of numbers.\<close>

definition majorityThreshold :: "ballot list \<Rightarrow> real" where
  "majorityThreshold allVotes = real (length allVotes) / 2"

text \<open>
  Line 714: \<open>firstPlaceVotes[option] > majorityThreshold\<close>. For \<open>__proto__\<close> the left
  side is \<open>Object.prototype\<close>, which converts to \<open>NaN\<close>: the comparison is false.
\<close>

definition exceeds :: "tally_object \<Rightarrow> real \<Rightarrow> string \<Rightarrow> bool" where
  "exceeds obj threshold option =
     (case obj_get obj option of
        Some n \<Rightarrow> threshold < real n
      | None \<Rightarrow> False)"

text \<open>Lines 712 to 718: the scan that stops at the first option above the threshold.\<close>

definition winner :: "string list \<Rightarrow> tally_object \<Rightarrow> real \<Rightarrow> string option" where
  "winner scan obj threshold = find (exceeds obj threshold) scan"

text \<open>Line 724: the entries sorted by count; \<open>Array.prototype.sort\<close> is stable.\<close>

definition sortedVotes :: "tally_object \<Rightarrow> (string \<times> nat) list" where
  "sortedVotes obj = sort_key snd (object_entries obj)"

text \<open>
  Lines 725 and 726. \<open>sortedVotes[0][1]\<close> throws a TypeError when \<open>sortedVotes\<close> is
  empty, since \<open>sortedVotes[0]\<close> is \<open>undefined\<close> then.
\<close>

definition eliminatedOptions :: "tally_object \<Rightarrow> js_error + string list" where
  "eliminatedOptions obj =
     (case sortedVotes obj of
        [] \<Rightarrow> Inl TypeError
      | first # _ \<Rightarrow>
          Inr (map fst (filter (\<lambda>e. snd e = snd first) (sortedVotes obj))))"

text \<open>\<open>xs[0]\<close>: \<open>undefined\<close> on an empty array.\<close>

definition element0 :: "string list \<Rightarrow> js_value" where
  "element0 xs = (case xs of [] \<Rightarrow> Undefined | x # _ \<Rightarrow> Str x)"

text \<open>What one pass through the body of \<open>while (true)\<close> does: return or throw, or loop.\<close>

datatype round_result = Done "js_error + js_value" | Continue "string list"

text \<open>Lines 724 to 732.\<close>

definition eliminate :: "string list \<Rightarrow> tally_object \<Rightarrow> round_result" where
  "eliminate currentOptions obj =
     (case eliminatedOptions obj of
        Inl e \<Rightarrow> Done (Inl e)
      | Inr eliminated \<Rightarrow>
          (let remaining = filter (\<lambda>option. option \<notin> set eliminated) currentOptions
           in if length remaining = 0 then Done (Inr (element0 eliminated))
              else Continue remaining))"

text \<open>Lines 695 to 732.\<close>

definition tabulate_round :: "string list \<Rightarrow> ballot list \<Rightarrow> round_result" where
  "tabulate_round currentOptions allVotes =
     (if length currentOptions = 1 then Done (Inr (element0 currentOptions))
      else
        (let obj = firstPlaceVotes currentOptions allVotes
         in case winner currentOptions obj (majorityThreshold allVotes) of
              Some w \<Rightarrow> if truthy w then Done (Inr (Str w)) else eliminate currentOptions obj
            | None \<Rightarrow> eliminate currentOptions obj))"

subsection \<open>The loop and the function\<close>

text \<open>
  Lines 694 to 733: \<open>while (true)\<close>, with \<open>currentOptions\<close> as the loop state. The
  termination proof follows lemma \<open>tabulate_round_Continue\<close> below.
\<close>

function elimination_loop :: "string list \<Rightarrow> ballot list \<Rightarrow> js_error + js_value" where
  "elimination_loop currentOptions allVotes =
     (case tabulate_round currentOptions allVotes of
        Done r \<Rightarrow> r
      | Continue remaining \<Rightarrow> elimination_loop remaining allVotes)"
  by pat_completeness auto

text \<open>Lines 689 to 734: the early return for an empty ballot list, then the loop.\<close>

definition calculateRankedChoiceWinner :: "string list \<Rightarrow> ballot list \<Rightarrow> js_error + js_value" where
  "calculateRankedChoiceWinner options allVotes =
     (if length allVotes = 0 then Inr (Str sentinel) else elimination_loop options allVotes)"

subsection \<open>Notions used to state the properties\<close>

text \<open>
  The loop with a budget of passes through its body: \<open>None\<close> when the budget is used
  up before the loop has returned or thrown.
\<close>

fun run_rounds :: "nat \<Rightarrow> string list \<Rightarrow> ballot list \<Rightarrow> (js_error + js_value) option" where
  "run_rounds 0 currentOptions allVotes = None"
| "run_rounds (Suc n) currentOptions allVotes =
     (case tabulate_round currentOptions allVotes of
        Done r \<Rightarrow> Some r
      | Continue remaining \<Rightarrow> run_rounds n remaining allVotes)"

text \<open>
  The number of ballots whose first entry in the working set is \<open>k\<close>: what the tally
  of \<open>k\<close> is compared with below.
\<close>

definition ballots_for :: "string list \<Rightarrow> ballot list \<Rightarrow> string \<Rightarrow> nat" where
  "ballots_for currentOptions allVotes k =
     length (filter (\<lambda>vote. first_choice currentOptions vote = Some k) allVotes)"

text \<open>
  The ballots that count in a round, and the ballots that are exhausted in it: those with
  no entry in the working set.
\<close>

definition live_ballots :: "string list \<Rightarrow> ballot list \<Rightarrow> ballot list" where
  "live_ballots currentOptions allVotes =
     filter (\<lambda>vote. first_choice currentOptions vote \<noteq> None) allVotes"

definition exhausted_ballots :: "string list \<Rightarrow> ballot list \<Rightarrow> ballot list" where
  "exhausted_ballots currentOptions allVotes =
     filter (\<lambda>vote. first_choice currentOptions vote = None) allVotes"

text \<open>
  A ballot without the entries that are not in the catalog, and a ballot without the
  repetitions of an entry after its first occurrence.
\<close>

definition known_entries :: "string list \<Rightarrow> ballot \<Rightarrow> ballot" where
  "known_entries options vote = filter (\<lambda>choice. choice \<in> set options) vote"

fun first_occurrences :: "string list \<Rightarrow> ballot \<Rightarrow> ballot" where
  "first_occurrences seen [] = []"
| "first_occurrences seen (choice # vote) =
     (if choice \<in> set seen then first_occurrences seen vote
      else choice # first_occurrences (choice # seen) vote)"

section \<open>Properties of the rounds and of the loop\<close>

subsection \<open>The keys of the tally object\<close>

lemma map_fst_obj_update:
  "map fst (obj_update k v obj) = (if k \<in> fst ` set obj then map fst obj else map fst obj @ [k])"
  by (induction obj) auto

lemma map_of_obj_update: "map_of (obj_update k v obj) = (map_of obj)(k \<mapsto> v)"
  by (induction obj) (auto simp: fun_eq_iff)

lemma keys_obj_increment: "map fst (obj_increment obj k) = map fst obj"
  by (auto simp: obj_increment_def obj_get_def obj_set_def map_fst_obj_update map_of_eq_None_iff
      split: option.splits)

lemma keys_count_vote: "map fst (count_vote cur obj v) = map fst obj"
  by (simp add: count_vote_def keys_obj_increment split: option.splits)

lemma keys_foldl_count_vote: "map fst (foldl (count_vote cur) obj votes) = map fst obj"
  by (induction votes arbitrary: obj) (simp_all add: keys_count_vote)

lemma keys_firstPlaceVotes: "map fst (firstPlaceVotes cur votes) = map fst (init_votes cur)"
  by (simp add: firstPlaceVotes_def keys_foldl_count_vote)

lemma map_fst_obj_set:
  "map fst (obj_set obj k v) =
     (if k = proto_key \<or> k \<in> set (map fst obj) then map fst obj else map fst obj @ [k])"
  by (simp add: obj_set_def map_fst_obj_update)

lemma keys_foldl_obj_set:
  "set (map fst (foldl (\<lambda>obj option. obj_set obj option 0) obj cur))
     = set (map fst obj) \<union> (set cur - {proto_key})"
proof (induction cur arbitrary: obj)
  case Nil
  show ?case by simp
next
  case (Cons c cur)
  show ?case
    unfolding foldl_Cons Cons.IH map_fst_obj_set by auto
qed

lemma distinct_foldl_obj_set:
  "distinct (map fst obj) \<Longrightarrow>
   distinct (map fst (foldl (\<lambda>obj option. obj_set obj option 0) obj cur))"
proof (induction cur arbitrary: obj)
  case Nil
  then show ?case by simp
next
  case (Cons c cur)
  have "distinct (map fst (obj_set obj c 0))"
    using Cons.prems unfolding map_fst_obj_set by auto
  then show ?case
    unfolding foldl_Cons by (rule Cons.IH)
qed

lemma set_keys_init: "set (map fst (init_votes cur)) = set cur - {proto_key}"
  unfolding init_votes_def keys_foldl_obj_set by simp

lemma distinct_keys_init: "distinct (map fst (init_votes cur))"
  unfolding init_votes_def by (rule distinct_foldl_obj_set) simp

lemma set_object_entries: "set (object_entries obj) = set obj"
  by (auto simp: object_entries_def)

lemma set_sortedVotes: "set (sortedVotes obj) = set obj"
  by (simp add: sortedVotes_def set_object_entries)

lemma eliminatedOptions_Inr:
  assumes "eliminatedOptions obj = Inr eliminated"
  shows "\<exists>k. k \<in> set eliminated \<and> k \<in> set (map fst obj)"
    and "set eliminated \<subseteq> set (map fst obj)"
proof -
  from assms obtain first rest where s: "sortedVotes obj = first # rest"
    and e: "eliminated = map fst (filter (\<lambda>e. snd e = snd first) (sortedVotes obj))"
    by (auto simp: eliminatedOptions_def split: list.splits)
  have "first \<in> set (sortedVotes obj)" using s by simp
  then have "first \<in> set obj" by (simp add: set_sortedVotes)
  moreover have "fst first \<in> set eliminated" unfolding e s by simp
  ultimately show "\<exists>k. k \<in> set eliminated \<and> k \<in> set (map fst obj)" by force
  show "set eliminated \<subseteq> set (map fst obj)"
    unfolding e using set_sortedVotes[of obj] by auto
qed

lemma eliminatedOptions_Inl:
  "eliminatedOptions obj = Inl e \<Longrightarrow> obj = []"
  using set_sortedVotes[of obj] by (auto simp: eliminatedOptions_def split: list.splits)

lemma tabulate_round_Continue:
  assumes "tabulate_round cur votes = Continue cur'"
  shows "length cur' < length cur" and "cur' \<noteq> []" and "\<exists>P. cur' = filter P cur"
proof -
  define obj where "obj = firstPlaceVotes cur votes"
  from assms have el: "eliminate cur obj = Continue cur'"
    by (auto simp: tabulate_round_def obj_def Let_def split: if_splits option.splits)
  then obtain eliminated where eo: "eliminatedOptions obj = Inr eliminated"
    and c: "cur' = filter (\<lambda>option. option \<notin> set eliminated) cur" and ne: "cur' \<noteq> []"
    by (auto simp: eliminate_def Let_def split: sum.splits if_splits)
  from eliminatedOptions_Inr(1)[OF eo] obtain k where k: "k \<in> set eliminated" "k \<in> set (map fst obj)"
    by blast
  from k(2) have "k \<in> set cur"
    unfolding obj_def keys_firstPlaceVotes set_keys_init by simp
  with k(1) show "length cur' < length cur"
    unfolding c by (auto intro!: length_filter_less)
  show "cur' \<noteq> []" by (rule ne)
  show "\<exists>P. cur' = filter P cur" using c by blast
qed

termination elimination_loop
  by (relation "measure (\<lambda>(currentOptions, allVotes). length currentOptions)")
    (auto dest: tabulate_round_Continue(1))

subsection \<open>The tally object in closed form\<close>

lemma get_obj_set: "obj_get (obj_set obj k v) k' = (if k = proto_key then obj_get obj k' else if k' = k then Some v else obj_get obj k')"
  by (simp add: obj_get_def obj_set_def map_of_obj_update)

lemma get_init_foldl:
  "obj_get (foldl (\<lambda>obj option. obj_set obj option 0) obj cur) k =
     (if k \<in> set cur \<and> k \<noteq> proto_key then Some 0 else obj_get obj k)"
  by (induction cur arbitrary: obj) (auto simp: get_obj_set)

lemma get_init_votes:
  "obj_get (init_votes cur) k = (if k \<in> set cur \<and> k \<noteq> proto_key then Some 0 else None)"
  by (simp add: init_votes_def get_init_foldl) (simp add: obj_get_def)

lemma get_count_vote:
  assumes "obj_get obj proto_key = None"
  shows "obj_get (count_vote cur obj v) k =
     (case obj_get obj k of
        None \<Rightarrow> None
      | Some n \<Rightarrow> Some (if first_choice cur v = Some k \<and> truthy k then n + 1 else n))"
  using assms
  by (auto simp: count_vote_def obj_increment_def get_obj_set split: option.splits)

lemma get_foldl_count_vote:
  assumes "obj_get obj proto_key = None"
  shows "obj_get (foldl (count_vote cur) obj votes) k =
     (case obj_get obj k of
        None \<Rightarrow> None
      | Some n \<Rightarrow> Some (n + (if truthy k then ballots_for cur votes k else 0)))"
  using assms
proof (induction votes arbitrary: obj)
  case Nil
  show ?case by (simp add: ballots_for_def split: option.splits)
next
  case (Cons v votes)
  have p: "obj_get (count_vote cur obj v) proto_key = None"
    by (simp add: get_count_vote[OF Cons.prems] Cons.prems)
  show ?case
    unfolding foldl_Cons Cons.IH[OF p] get_count_vote[OF Cons.prems]
    by (simp add: ballots_for_def split: option.splits)
qed

lemma get_firstPlaceVotes:
  "obj_get (firstPlaceVotes cur votes) k =
     (if k \<in> set cur \<and> k \<noteq> proto_key
      then Some (if truthy k then ballots_for cur votes k else 0) else None)"
proof -
  have "obj_get (init_votes cur) proto_key = None" by (simp add: get_init_votes)
  from get_foldl_count_vote[OF this] show ?thesis
    by (simp add: firstPlaceVotes_def get_init_votes)
qed

lemma alist_by_keys:
  "distinct (map fst xs) \<Longrightarrow> map (\<lambda>k. (k, the (map_of xs k))) (map fst xs) = xs"
proof (induction xs)
  case Nil
  show ?case by simp
next
  case (Cons x xs)
  have "map (\<lambda>k. (k, the (map_of (x # xs) k))) (map fst xs) = map (\<lambda>k. (k, the (map_of xs k))) (map fst xs)"
    using Cons.prems by (intro map_cong refl) (auto simp: rev_image_eqI)
  with Cons show ?case by simp
qed

lemma firstPlaceVotes_closed:
  "firstPlaceVotes cur votes =
     map (\<lambda>k. (k, if truthy k then ballots_for cur votes k else 0)) (map fst (init_votes cur))"
proof -
  let ?obj = "firstPlaceVotes cur votes"
  have d: "distinct (map fst ?obj)" by (simp add: keys_firstPlaceVotes distinct_keys_init)
  have "?obj = map (\<lambda>k. (k, the (map_of ?obj k))) (map fst ?obj)"
    by (rule alist_by_keys[OF d, symmetric])
  also have "\<dots> = map (\<lambda>k. (k, the (obj_get ?obj k))) (map fst (init_votes cur))"
    by (simp add: keys_firstPlaceVotes obj_get_def)
  also have "\<dots> = map (\<lambda>k. (k, if truthy k then ballots_for cur votes k else 0)) (map fst (init_votes cur))"
    using set_keys_init[of cur] by (intro map_cong refl) (auto simp: get_firstPlaceVotes)
  finally show ?thesis .
qed

lemma ballots_for_mset:
  "mset votes = mset votes' \<Longrightarrow> ballots_for cur votes k = ballots_for cur votes' k"
proof -
  assume a: "mset votes = mset votes'"
  have "\<And>P. length (filter P votes) = length (filter P votes')"
    by (metis a mset_filter size_mset)
  then show ?thesis by (simp add: ballots_for_def)
qed

lemma ballots_for_two:
  "k1 \<noteq> k2 \<Longrightarrow> ballots_for cur votes k1 + ballots_for cur votes k2 \<le> length votes"
  unfolding ballots_for_def by (induction votes) auto

subsection \<open>What a round returns, and the loop\<close>

lemma firstPlaceVotes_Nil_iff: "firstPlaceVotes cur votes = [] \<longleftrightarrow> set cur \<subseteq> {proto_key}"
proof -
  have "firstPlaceVotes cur votes = [] \<longleftrightarrow> set (map fst (firstPlaceVotes cur votes)) = {}"
    by simp
  also have "\<dots> \<longleftrightarrow> set cur \<subseteq> {proto_key}"
    unfolding keys_firstPlaceVotes set_keys_init by auto
  finally show ?thesis .
qed

lemma exceeds_truthy:
  assumes "exceeds (firstPlaceVotes cur votes) (majorityThreshold votes) c"
  shows "truthy c" and "c \<in> set cur"
proof -
  from assms obtain n where n: "obj_get (firstPlaceVotes cur votes) c = Some n"
    and gt: "majorityThreshold votes < real n"
    by (auto simp: exceeds_def split: option.splits)
  have "0 \<le> majorityThreshold votes" by (simp add: majorityThreshold_def)
  with gt have "0 < n" by (cases n) auto
  with n show "truthy c" by (auto simp: get_firstPlaceVotes split: if_splits)
  from n show "c \<in> set cur" by (auto simp: get_firstPlaceVotes split: if_splits)
qed

lemma winner_Some_truthy:
  assumes "winner cur (firstPlaceVotes cur votes) (majorityThreshold votes) = Some c"
  shows "truthy c" and "c \<in> set cur"
proof -
  from assms have "exceeds (firstPlaceVotes cur votes) (majorityThreshold votes) c"
    by (auto simp: winner_def find_Some_iff)
  then show "truthy c" by (rule exceeds_truthy)
  from assms show "c \<in> set cur" by (auto simp: winner_def find_Some_iff)
qed

lemma tabulate_round_unfold:
  "tabulate_round cur votes =
     (if length cur = 1 then Done (Inr (element0 cur))
      else case winner cur (firstPlaceVotes cur votes) (majorityThreshold votes) of
             Some w \<Rightarrow> Done (Inr (Str w))
           | None \<Rightarrow> eliminate cur (firstPlaceVotes cur votes))"
  by (auto simp: tabulate_round_def Let_def winner_Some_truthy(1) split: option.splits)

lemma eliminate_Done_Str:
  assumes "eliminate cur obj = Done (Inr v)"
  shows "\<exists>c. v = Str c \<and> c \<in> set (map fst obj)"
proof -
  from assms obtain eliminated where eo: "eliminatedOptions obj = Inr eliminated"
    and v: "v = element0 eliminated"
    by (auto simp: eliminate_def Let_def split: sum.splits if_splits)
  from eliminatedOptions_Inr[OF eo] have "eliminated \<noteq> []" "set eliminated \<subseteq> set (map fst obj)"
    by auto
  then show ?thesis unfolding v element0_def by (cases eliminated) auto
qed

lemma eliminate_Done_Inl:
  "eliminate cur obj = Done (Inl e) \<Longrightarrow> obj = []"
  by (auto simp: eliminate_def Let_def split: sum.splits if_splits dest: eliminatedOptions_Inl)

lemma tabulate_round_Done_Inr:
  assumes "tabulate_round cur votes = Done (Inr v)"
  shows "\<exists>c. v = Str c \<and> c \<in> set cur"
proof (cases "length cur = 1")
  case True
  then obtain c where "cur = [c]" by (cases cur) auto
  with assms show ?thesis by (simp add: tabulate_round_def element0_def)
next
  case False
  show ?thesis
  proof (cases "winner cur (firstPlaceVotes cur votes) (majorityThreshold votes)")
    case None
    with assms False have "eliminate cur (firstPlaceVotes cur votes) = Done (Inr v)"
      by (simp add: tabulate_round_unfold)
    from eliminate_Done_Str[OF this] show ?thesis
      unfolding keys_firstPlaceVotes set_keys_init by auto
  next
    case (Some w)
    with assms False have "v = Str w" by (simp add: tabulate_round_unfold)
    with winner_Some_truthy(2)[OF Some] show ?thesis by simp
  qed
qed

lemma tabulate_round_Done_Inl:
  assumes "tabulate_round cur votes = Done (Inl e)"
  shows "length cur \<noteq> 1 \<and> set cur \<subseteq> {proto_key}"
proof -
  from assms have l: "length cur \<noteq> 1" by (auto simp: tabulate_round_unfold)
  with assms have "eliminate cur (firstPlaceVotes cur votes) = Done (Inl e)"
    by (auto simp: tabulate_round_unfold split: option.splits)
  then have "firstPlaceVotes cur votes = []" by (rule eliminate_Done_Inl)
  with l show ?thesis by (simp add: firstPlaceVotes_Nil_iff)
qed

lemma count_list_all_same: "set xs \<subseteq> {p} \<Longrightarrow> count_list xs p = length xs"
  by (induction xs) auto

lemma count_list_filter_le: "count_list (filter P xs) x \<le> count_list xs x"
  by (induction xs) auto

lemma elimination_loop_returns:
  "cur \<noteq> [] \<Longrightarrow> count_list cur proto_key \<le> 1 \<Longrightarrow>
   \<exists>c. c \<in> set cur \<and> elimination_loop cur votes = Inr (Str c)"
proof (induction cur votes rule: elimination_loop.induct)
  case (1 cur votes)
  show ?case
  proof (cases "tabulate_round cur votes")
    case (Done r)
    show ?thesis
    proof (cases r)
      case (Inl e)
      with Done have "length cur \<noteq> 1" "set cur \<subseteq> {proto_key}"
        using tabulate_round_Done_Inl by blast+
      with count_list_all_same[of cur proto_key] "1.prems" have False
        by (cases cur) auto
      then show ?thesis ..
    next
      case (Inr v)
      with Done tabulate_round_Done_Inr[of cur votes v] show ?thesis
        by (subst elimination_loop.simps) auto
    qed
  next
    case (Continue cur')
    from tabulate_round_Continue[OF Continue] obtain P where
      ne: "cur' \<noteq> []" and f: "cur' = filter P cur" by blast
    have "count_list cur' proto_key \<le> 1"
      unfolding f using count_list_filter_le[of P cur proto_key] "1.prems"(2) by linarith
    from "1.IH"[OF Continue ne this] obtain c where "c \<in> set cur'" "elimination_loop cur' votes = Inr (Str c)"
      by blast
    with Continue f show ?thesis
      by (subst elimination_loop.simps) auto
  qed
qed

lemma run_rounds_enough:
  "cur \<noteq> [] \<Longrightarrow> length cur \<le> n \<Longrightarrow>
   run_rounds n cur votes = Some (elimination_loop cur votes)"
proof (induction n arbitrary: cur)
  case 0
  then show ?case by simp
next
  case (Suc n)
  show ?case
  proof (cases "tabulate_round cur votes")
    case (Done r)
    then show ?thesis by (subst elimination_loop.simps) simp
  next
    case (Continue cur')
    from tabulate_round_Continue[OF Continue] Suc.prems have "cur' \<noteq> []" "length cur' \<le> n"
      by auto
    from Suc.IH[OF this] Continue show ?thesis
      by (subst elimination_loop.simps) simp
  qed
qed

text \<open>The definitions to unfold when a round is evaluated on concrete inputs.\<close>

lemmas round_eval =
  tabulate_round_def firstPlaceVotes_def init_votes_def obj_set_def proto_key_def count_vote_def
  first_choice_def truthy_def obj_increment_def obj_get_def majorityThreshold_def winner_def
  exceeds_def eliminate_def eliminatedOptions_def sortedVotes_def object_entries_def
  is_array_index_def is_digit_def index_value_def digit_value_def element0_def

subsection \<open>The order of the ballots\<close>

lemma firstPlaceVotes_mset:
  assumes "mset votes = mset votes'"
  shows "firstPlaceVotes cur votes = firstPlaceVotes cur votes'"
  unfolding firstPlaceVotes_closed using ballots_for_mset[OF assms] by simp

lemma tabulate_round_mset:
  assumes "mset votes = mset votes'"
  shows "tabulate_round cur votes = tabulate_round cur votes'"
proof -
  have "length votes = length votes'" using assms by (metis size_mset)
  then have "majorityThreshold votes = majorityThreshold votes'"
    by (simp add: majorityThreshold_def)
  then show ?thesis
    by (simp add: tabulate_round_def firstPlaceVotes_mset[OF assms])
qed

lemma elimination_loop_mset:
  "mset votes = mset votes' \<Longrightarrow> elimination_loop cur votes = elimination_loop cur votes'"
proof (induction cur votes rule: elimination_loop.induct)
  case (1 cur votes)
  have eq: "tabulate_round cur votes' = tabulate_round cur votes"
    by (rule tabulate_round_mset[OF "1.prems", symmetric])
  show ?case
  proof (cases "tabulate_round cur votes")
    case (Done r)
    then have "elimination_loop cur votes = r" "elimination_loop cur votes' = r"
      by (simp_all add: elimination_loop.simps[of cur votes] elimination_loop.simps[of cur votes'] eq)
    then show ?thesis by simp
  next
    case (Continue cur')
    then have "elimination_loop cur votes = elimination_loop cur' votes"
      "elimination_loop cur votes' = elimination_loop cur' votes'"
      by (simp_all add: elimination_loop.simps[of cur votes] elimination_loop.simps[of cur votes'] eq)
    with "1.IH"[OF Continue "1.prems"] show ?thesis by simp
  qed
qed

subsection \<open>The majority check\<close>

lemma exceeds_iff:
  "exceeds (firstPlaceVotes cur votes) (majorityThreshold votes) c \<longleftrightarrow>
     c \<in> set cur \<and> c \<noteq> proto_key \<and> truthy c \<and> length votes < 2 * ballots_for cur votes c"
  by (auto simp: exceeds_def get_firstPlaceVotes majorityThreshold_def split: option.splits)

lemma exceeds_unique:
  assumes "exceeds (firstPlaceVotes cur votes) (majorityThreshold votes) c1"
    and "exceeds (firstPlaceVotes cur votes) (majorityThreshold votes) c2"
  shows "c1 = c2"
proof (rule ccontr)
  assume "c1 \<noteq> c2"
  from ballots_for_two[OF this, of cur votes] assms show False
    by (simp add: exceeds_iff)
qed

lemma winner_scan_iff:
  "winner scan (firstPlaceVotes cur votes) (majorityThreshold votes) = Some c \<longleftrightarrow>
     c \<in> set scan \<and> exceeds (firstPlaceVotes cur votes) (majorityThreshold votes) c"
proof
  assume "winner scan (firstPlaceVotes cur votes) (majorityThreshold votes) = Some c"
  then show "c \<in> set scan \<and> exceeds (firstPlaceVotes cur votes) (majorityThreshold votes) c"
    by (auto simp: winner_def find_Some_iff)
next
  assume a: "c \<in> set scan \<and> exceeds (firstPlaceVotes cur votes) (majorityThreshold votes) c"
  then have "find (exceeds (firstPlaceVotes cur votes) (majorityThreshold votes)) scan \<noteq> None"
    by (auto simp: find_None_iff)
  then obtain w where w: "winner scan (firstPlaceVotes cur votes) (majorityThreshold votes) = Some w"
    by (auto simp: winner_def)
  then have "exceeds (firstPlaceVotes cur votes) (majorityThreshold votes) w"
    by (auto simp: winner_def find_Some_iff)
  with a have "w = c" by (blast intro: exceeds_unique)
  with w show "winner scan (firstPlaceVotes cur votes) (majorityThreshold votes) = Some c" by simp
qed

lemma winner_scan_order:
  assumes "set scan = set cur"
  shows "winner scan (firstPlaceVotes cur votes) (majorityThreshold votes)
       = winner cur (firstPlaceVotes cur votes) (majorityThreshold votes)"
proof (cases "winner cur (firstPlaceVotes cur votes) (majorityThreshold votes)")
  case None
  then have "\<forall>c\<in>set cur. \<not> exceeds (firstPlaceVotes cur votes) (majorityThreshold votes) c"
    by (simp add: winner_def find_None_iff)
  with assms have "winner scan (firstPlaceVotes cur votes) (majorityThreshold votes) = None"
    by (simp add: winner_def find_None_iff)
  with None show ?thesis by simp
next
  case (Some c)
  then have "c \<in> set scan \<and> exceeds (firstPlaceVotes cur votes) (majorityThreshold votes) c"
    using assms by (simp add: winner_scan_iff)
  then have "winner scan (firstPlaceVotes cur votes) (majorityThreshold votes) = Some c"
    by (simp only: winner_scan_iff)
  with Some show ?thesis by simp
qed

subsection \<open>The elimination\<close>

lemma sortedVotes_Cons:
  assumes "sortedVotes obj = first # rest"
  shows "snd first = Min (snd ` set obj)"
proof (rule Min_eqI[symmetric])
  show "finite (snd ` set obj)" by simp
  have f: "first \<in> set (sortedVotes obj)" using assms by simp
  then show "snd first \<in> snd ` set obj" by (simp add: set_sortedVotes)
  fix y assume "y \<in> snd ` set obj"
  then obtain e where e: "e \<in> set (sortedVotes obj)" "y = snd e"
    by (auto simp: set_sortedVotes)
  have "sorted (map snd (sortedVotes obj))"
    unfolding sortedVotes_def by (rule sorted_sort_key)
  with assms e show "snd first \<le> y" by auto
qed

lemma eliminatedOptions_min:
  assumes "obj \<noteq> []"
  shows "eliminatedOptions obj =
     Inr (map fst (filter (\<lambda>e. snd e = Min (snd ` set obj)) (object_entries obj)))"
proof -
  have "set (sortedVotes obj) \<noteq> {}" using assms by (simp add: set_sortedVotes)
  then obtain first rest where s: "sortedVotes obj = first # rest"
    by (cases "sortedVotes obj") auto
  have "filter (\<lambda>e. snd e = snd first) (sortedVotes obj)
      = filter (\<lambda>e. snd e = snd first) (object_entries obj)"
    unfolding sortedVotes_def by (rule sort_key_stable)
  then show ?thesis
    using s sortedVotes_Cons[OF s] by (simp add: eliminatedOptions_def)
qed

lemma set_eliminated:
  assumes "distinct (map fst obj)"
  shows "set (map fst (filter (\<lambda>e. snd e = m) (object_entries obj))) = {k. obj_get obj k = Some m}"
proof -
  have "set (map fst (filter (\<lambda>e. snd e = m) (object_entries obj))) = {k. (k, m) \<in> set obj}"
    by (force simp: set_object_entries)
  also have "\<dots> = {k. obj_get obj k = Some m}"
    using assms by (simp add: obj_get_def)
  finally show ?thesis .
qed

subsection \<open>Exhausted ballots\<close>

lemma ballots_for_live:
  "ballots_for cur (filter (\<lambda>v. first_choice cur v \<noteq> None) votes) k = ballots_for cur votes k"
  unfolding ballots_for_def by (induction votes) auto

lemma length_live_exhausted:
  "length (live_ballots cur votes) + length (exhausted_ballots cur votes) = length votes"
proof -
  have "length (filter (\<lambda>vote. first_choice cur vote \<noteq> None) votes)
      + length (filter (\<lambda>vote. \<not> first_choice cur vote \<noteq> None) votes) = length votes"
    by (rule sum_length_filter_compl)
  then show ?thesis by (simp add: live_ballots_def exhausted_ballots_def)
qed

subsection \<open>The order of the eliminated candidates\<close>

lemma keys_foldl_obj_set_prefix:
  "\<exists>ks. map fst (foldl (\<lambda>obj option. obj_set obj option 0) obj cur) = map fst obj @ ks"
proof (induction cur arbitrary: obj)
  case Nil
  show ?case by simp
next
  case (Cons c cur)
  from Cons.IH[of "obj_set obj c 0"] obtain ks where
    "map fst (foldl (\<lambda>obj option. obj_set obj option 0) (obj_set obj c 0) cur)
       = map fst (obj_set obj c 0) @ ks" by blast
  then show ?case by (auto simp: map_fst_obj_set)
qed

lemma keys_init_Cons:
  assumes "c \<noteq> proto_key"
  shows "\<exists>ks. map fst (init_votes (c # cur)) = c # ks"
proof -
  have "obj_set [] c 0 = [(c, 0)]" using assms by (simp add: obj_set_def)
  with keys_foldl_obj_set_prefix[of "[(c, 0)]" cur] show ?thesis
    by (auto simp: init_votes_def)
qed

lemma hd_sort_key_least:
  assumes "xs \<noteq> []"
  shows "\<exists>x rest. sort_key f xs = x # rest \<and> x \<in> set xs \<and> (\<forall>y\<in>set xs. f x \<le> f y)"
proof -
  have "set (sort_key f xs) \<noteq> {}" using assms by simp
  then obtain x rest where s: "sort_key f xs = x # rest" by (cases "sort_key f xs") auto
  have "sorted (map f (sort_key f xs))" by (rule sorted_sort_key)
  with s have "\<forall>y\<in>set (x # rest). f x \<le> f y" by auto
  then have "\<forall>y\<in>set (sort_key f xs). f x \<le> f y" by (simp only: s)
  then have le: "\<forall>y\<in>set xs. f x \<le> f y" by simp
  have "x \<in> set (sort_key f xs)" by (simp only: s) simp
  then have "x \<in> set xs" by simp
  with s le show ?thesis by blast
qed

lemma hd_object_entries:
  assumes "obj \<noteq> []"
  shows "\<exists>x rest. object_entries obj = x # rest \<and> x \<in> set obj
     \<and> ((\<exists>y\<in>set obj. is_array_index (fst y)) \<longrightarrow>
          is_array_index (fst x)
          \<and> (\<forall>y\<in>set obj. is_array_index (fst y) \<longrightarrow> index_value (fst x) \<le> index_value (fst y)))
     \<and> ((\<forall>y\<in>set obj. \<not> is_array_index (fst y)) \<longrightarrow> (\<exists>rest'. obj = x # rest'))"
proof (cases "filter (\<lambda>e. is_array_index (fst e)) obj = []")
  case True
  then have no: "\<forall>y\<in>set obj. \<not> is_array_index (fst y)"
    by (simp add: filter_empty_conv)
  then have "object_entries obj = obj" by (simp add: object_entries_def True)
  with assms no show ?thesis by (cases obj) auto
next
  case False
  from hd_sort_key_least[OF False, of "\<lambda>e. index_value (fst e)"] obtain x rest where
    s: "sort_key (\<lambda>e. index_value (fst e)) (filter (\<lambda>e. is_array_index (fst e)) obj) = x # rest"
    and x: "x \<in> set (filter (\<lambda>e. is_array_index (fst e)) obj)"
    and le: "\<forall>y\<in>set (filter (\<lambda>e. is_array_index (fst e)) obj). index_value (fst x) \<le> index_value (fst y)"
    by blast
  have "object_entries obj = x # (rest @ filter (\<lambda>e. \<not> is_array_index (fst e)) obj)"
    by (simp add: object_entries_def s)
  with x le show ?thesis by auto
qed

subsection \<open>Malformed ballots\<close>

lemma first_choice_known_entries:
  "set cur \<subseteq> set options \<Longrightarrow> first_choice cur (known_entries options vote) = first_choice cur vote"
  unfolding first_choice_def known_entries_def by (induction vote) auto

lemma find_first_occurrences:
  "\<forall>s\<in>set seen. \<not> P s \<Longrightarrow> find P (first_occurrences seen vote) = find P vote"
  by (induction vote arbitrary: seen) auto

lemma first_choice_first_occurrences:
  "first_choice cur (first_occurrences [] vote) = first_choice cur vote"
  unfolding first_choice_def by (rule find_first_occurrences) simp

lemma ballots_for_map:
  assumes "\<And>vote. first_choice cur (g vote) = first_choice cur vote"
  shows "ballots_for cur (map g votes) k = ballots_for cur votes k"
  unfolding ballots_for_def by (induction votes) (auto simp: assms)

lemma tabulate_round_map:
  assumes "\<And>vote. first_choice cur (g vote) = first_choice cur vote"
  shows "tabulate_round cur (map g votes) = tabulate_round cur votes"
proof -
  have "firstPlaceVotes cur (map g votes) = firstPlaceVotes cur votes"
    unfolding firstPlaceVotes_closed ballots_for_map[of cur g, OF assms] ..
  then show ?thesis by (simp add: tabulate_round_def majorityThreshold_def)
qed

lemma elimination_loop_map:
  assumes "\<And>cur vote. set cur \<subseteq> set options \<Longrightarrow> first_choice cur (g vote) = first_choice cur vote"
  shows "set cur \<subseteq> set options \<Longrightarrow> elimination_loop cur (map g votes) = elimination_loop cur votes"
proof (induction cur votes rule: elimination_loop.induct)
  case (1 cur votes)
  have eq: "tabulate_round cur (map g votes) = tabulate_round cur votes"
    by (rule tabulate_round_map) (rule assms[OF "1.prems"])
  show ?case
  proof (cases "tabulate_round cur votes")
    case (Done r)
    then have "elimination_loop cur votes = r" "elimination_loop cur (map g votes) = r"
      by (simp_all add: elimination_loop.simps[of cur votes]
          elimination_loop.simps[of cur "map g votes"] eq)
    then show ?thesis by simp
  next
    case (Continue cur')
    then have "elimination_loop cur votes = elimination_loop cur' votes"
      "elimination_loop cur (map g votes) = elimination_loop cur' (map g votes)"
      by (simp_all add: elimination_loop.simps[of cur votes]
          elimination_loop.simps[of cur "map g votes"] eq)
    moreover from tabulate_round_Continue(3)[OF Continue] "1.prems" have "set cur' \<subseteq> set options"
      by auto
    ultimately show ?thesis using "1.IH"[OF Continue] by simp
  qed
qed

text \<open>
  Entries that are not in the catalog, and repetitions of an entry, are never matched:
  dropping them from every ballot leaves the outcome as it is, for every catalog.
\<close>

lemma foreign_entries_inert:
  "calculateRankedChoiceWinner options (map (known_entries options) allVotes)
     = calculateRankedChoiceWinner options allVotes"
proof -
  have "elimination_loop options (map (known_entries options) allVotes)
      = elimination_loop options allVotes"
    by (rule elimination_loop_map[where options = options])
      (simp_all add: first_choice_known_entries)
  then show ?thesis by (simp add: calculateRankedChoiceWinner_def)
qed

lemma repeated_entries_inert:
  "calculateRankedChoiceWinner options (map (first_occurrences []) allVotes)
     = calculateRankedChoiceWinner options allVotes"
proof -
  have "elimination_loop options (map (first_occurrences []) allVotes)
      = elimination_loop options allVotes"
    by (rule elimination_loop_map[where options = options])
      (simp_all add: first_choice_first_occurrences)
  then show ?thesis by (simp add: calculateRankedChoiceWinner_def)
qed

text \<open>
  For an identifier other than the empty string and \<open>__proto__\<close>, the tally is the
  number of ballots whose first entry in the working set is that identifier.
\<close>

lemma tally_counts_first_choices:
  assumes "k \<in> set currentOptions" and "k \<noteq> proto_key" and "k \<noteq> []"
  shows "obj_get (firstPlaceVotes currentOptions allVotes) k
       = Some (length (filter (\<lambda>vote. first_choice currentOptions vote = Some k) allVotes))"
  using assms by (simp add: get_firstPlaceVotes truthy_def ballots_for_def)

section \<open>The claims\<close>

text \<open>
  C1, as amended. The claim as stated fails twice. The sentinel is an ordinary string, so
  a catalog that holds the identifier \<open>No votes submitted yet.\<close> can return it; and a
  catalog that repeats \<open>__proto__\<close> can reach a round whose tally object has no
  entries, where line 725 throws. What holds: for a non-empty catalog in which
  \<open>__proto__\<close> occurs at most once (so for every catalog of unique identifiers) and a
  non-empty ballot list, the function returns one string that is a member of the original
  catalog, and that string is not the sentinel unless the sentinel is itself a member of
  the catalog.
\<close>

theorem winner_in_catalog:
  assumes "options \<noteq> []" and "allVotes \<noteq> []" and "count_list options proto_key \<le> 1"
  shows "(\<exists>c. c \<in> set options \<and> calculateRankedChoiceWinner options allVotes = Inr (Str c))
       \<and> (sentinel \<notin> set options \<longrightarrow>
            calculateRankedChoiceWinner options allVotes \<noteq> Inr (Str sentinel))"
proof -
  from elimination_loop_returns[OF assms(1,3), of allVotes] obtain c where
    c: "c \<in> set options" "elimination_loop options allVotes = Inr (Str c)" by blast
  with assms(2) have "calculateRankedChoiceWinner options allVotes = Inr (Str c)"
    by (simp add: calculateRankedChoiceWinner_def)
  with c(1) show ?thesis by auto
qed

theorem winner_in_catalog_witness:
  "[''A'', ''B'', ''C''] \<noteq> [] \<and> [[''B'', ''A''], [''C'']] \<noteq> ([] :: ballot list)
   \<and> count_list [''A'', ''B'', ''C''] proto_key \<le> 1
   \<and> (\<exists>c. c \<in> set [''A'', ''B'', ''C'']
          \<and> calculateRankedChoiceWinner [''A'', ''B'', ''C''] [[''B'', ''A''], [''C'']] = Inr (Str c))
   \<and> calculateRankedChoiceWinner [''A'', ''B'', ''C''] [[''B'', ''A''], [''C'']] \<noteq> Inr (Str sentinel)"
proof -
  have h1: "[''A'', ''B'', ''C''] \<noteq> ([] :: string list)" by simp
  have h2: "[[''B'', ''A''], [''C'']] \<noteq> ([] :: ballot list)" by simp
  have h3: "count_list [''A'', ''B'', ''C''] proto_key \<le> 1" by (simp add: proto_key_def)
  have h4: "sentinel \<notin> set [''A'', ''B'', ''C'']" by (simp add: sentinel_def)
  from winner_in_catalog[OF h1 h2 h3] h1 h2 h3 h4 show ?thesis by blast
qed

text \<open>
  The claim as stated, refuted: a catalog of two unique identifiers returns the sentinel
  string, and a catalog that repeats \<open>__proto__\<close> throws.
\<close>

theorem sentinel_named_candidate_counterexample:
  "calculateRankedChoiceWinner [''No votes submitted yet.'', ''A'']
      [[''No votes submitted yet.'', ''A'']] = Inr (Str sentinel)
   \<and> calculateRankedChoiceWinner [''__proto__'', ''__proto__''] [[''__proto__'']] = Inl TypeError"
  by (simp add: calculateRankedChoiceWinner_def sentinel_def round_eval)

text \<open>
  The majority check on the tallies that the tally object holds. The scan of lines 712 to
  718 finds a candidate exactly when that candidate is in the working set and its entry
  is strictly above \<open>allVotes.length / 2\<close>, the quotient taken in the reals; an entry
  of exactly half the ballots does not win; two candidates above the threshold are the
  same candidate, so scanning the working set in any other order finds the same
  candidate; and a round with more than one candidate (or none) returns the candidate
  found, or goes on to the elimination when none is found. For every identifier other than
  the empty string and \<open>__proto__\<close>, the entry is the number of ballots whose first
  entry in the working set is that identifier.
\<close>

lemma strict_majority_wins:
  "(winner currentOptions (firstPlaceVotes currentOptions allVotes) (majorityThreshold allVotes) = Some c
      \<longleftrightarrow> c \<in> set currentOptions
          \<and> (\<exists>n. obj_get (firstPlaceVotes currentOptions allVotes) c = Some n
                 \<and> real (length allVotes) / 2 < real n))
   \<and> (obj_get (firstPlaceVotes currentOptions allVotes) c = Some n \<and> 2 * n = length allVotes
        \<longrightarrow> winner currentOptions (firstPlaceVotes currentOptions allVotes)
              (majorityThreshold allVotes) \<noteq> Some c)
   \<and> (exceeds (firstPlaceVotes currentOptions allVotes) (majorityThreshold allVotes) c
        \<and> exceeds (firstPlaceVotes currentOptions allVotes) (majorityThreshold allVotes) c'
        \<longrightarrow> c = c')
   \<and> (set scan = set currentOptions
        \<longrightarrow> winner scan (firstPlaceVotes currentOptions allVotes) (majorityThreshold allVotes)
            = winner currentOptions (firstPlaceVotes currentOptions allVotes)
                (majorityThreshold allVotes))
   \<and> (length currentOptions \<noteq> 1 \<longrightarrow>
        tabulate_round currentOptions allVotes =
          (case winner currentOptions (firstPlaceVotes currentOptions allVotes)
                  (majorityThreshold allVotes) of
             Some w \<Rightarrow> Done (Inr (Str w))
           | None \<Rightarrow> eliminate currentOptions (firstPlaceVotes currentOptions allVotes)))
   \<and> (c \<in> set currentOptions \<and> c \<noteq> proto_key \<and> c \<noteq> [] \<longrightarrow>
        obj_get (firstPlaceVotes currentOptions allVotes) c
          = Some (ballots_for currentOptions allVotes c))"
proof (intro conjI impI)
  show "winner currentOptions (firstPlaceVotes currentOptions allVotes) (majorityThreshold allVotes) = Some c
      \<longleftrightarrow> c \<in> set currentOptions
          \<and> (\<exists>n. obj_get (firstPlaceVotes currentOptions allVotes) c = Some n
                 \<and> real (length allVotes) / 2 < real n)"
    unfolding winner_scan_iff
    by (auto simp: exceeds_def majorityThreshold_def split: option.splits)
next
  assume a: "obj_get (firstPlaceVotes currentOptions allVotes) c = Some n \<and> 2 * n = length allVotes"
  then have "\<not> exceeds (firstPlaceVotes currentOptions allVotes) (majorityThreshold allVotes) c"
    by (auto simp: exceeds_def majorityThreshold_def)
  then show "winner currentOptions (firstPlaceVotes currentOptions allVotes)
              (majorityThreshold allVotes) \<noteq> Some c"
    by (simp add: winner_scan_iff)
next
  assume "exceeds (firstPlaceVotes currentOptions allVotes) (majorityThreshold allVotes) c
        \<and> exceeds (firstPlaceVotes currentOptions allVotes) (majorityThreshold allVotes) c'"
  then show "c = c'" by (blast intro: exceeds_unique)
next
  assume "set scan = set currentOptions"
  then show "winner scan (firstPlaceVotes currentOptions allVotes) (majorityThreshold allVotes)
            = winner currentOptions (firstPlaceVotes currentOptions allVotes)
                (majorityThreshold allVotes)"
    by (rule winner_scan_order)
next
  assume "length currentOptions \<noteq> 1"
  then show "tabulate_round currentOptions allVotes =
          (case winner currentOptions (firstPlaceVotes currentOptions allVotes)
                  (majorityThreshold allVotes) of
             Some w \<Rightarrow> Done (Inr (Str w))
           | None \<Rightarrow> eliminate currentOptions (firstPlaceVotes currentOptions allVotes))"
    by (simp add: tabulate_round_unfold)
next
  assume "c \<in> set currentOptions \<and> c \<noteq> proto_key \<and> c \<noteq> []"
  then show "obj_get (firstPlaceVotes currentOptions allVotes) c
          = Some (ballots_for currentOptions allVotes c)"
    by (simp add: get_firstPlaceVotes truthy_def)
qed


text \<open>
  The elimination on the tallies that the tally object holds. In a round with more than
  one candidate where no candidate is above the threshold (and some candidate has an
  entry, so that line 725 does not throw), \<open>eliminatedOptions\<close> holds exactly the
  candidates whose entry is the least of all entries of that round, all of them members
  of the working set, and the round removes every one of them in a single filter: it
  either loops with the working set without them, or, when none is left, returns.
\<close>

lemma simultaneous_elimination:
  assumes "length currentOptions \<noteq> 1"
    and "winner currentOptions (firstPlaceVotes currentOptions allVotes)
           (majorityThreshold allVotes) = None"
    and "\<not> set currentOptions \<subseteq> {proto_key}"
  shows "\<exists>eliminated.
      eliminatedOptions (firstPlaceVotes currentOptions allVotes) = Inr eliminated
    \<and> eliminated \<noteq> []
    \<and> set eliminated =
        {c. obj_get (firstPlaceVotes currentOptions allVotes) c
              = Some (Min (snd ` set (firstPlaceVotes currentOptions allVotes)))}
    \<and> set eliminated \<subseteq> set currentOptions
    \<and> tabulate_round currentOptions allVotes =
        (if filter (\<lambda>c. c \<notin> set eliminated) currentOptions = []
         then Done (Inr (element0 eliminated))
         else Continue (filter (\<lambda>c. c \<notin> set eliminated) currentOptions))"
proof -
  let ?obj = "firstPlaceVotes currentOptions allVotes"
  define m where "m = Min (snd ` set ?obj)"
  define el where "el = map fst (filter (\<lambda>e. snd e = m) (object_entries ?obj))"
  have ne: "?obj \<noteq> []" using assms(3) by (simp add: firstPlaceVotes_Nil_iff)
  have eo: "eliminatedOptions ?obj = Inr el"
    unfolding el_def m_def by (rule eliminatedOptions_min[OF ne])
  have d: "distinct (map fst ?obj)" by (simp add: keys_firstPlaceVotes distinct_keys_init)
  have s: "set el = {c. obj_get ?obj c = Some m}"
    unfolding el_def by (rule set_eliminated[OF d])
  from eliminatedOptions_Inr(1)[OF eo] have nel: "el \<noteq> []" by auto
  from eliminatedOptions_Inr(2)[OF eo] have sub: "set el \<subseteq> set currentOptions"
    unfolding keys_firstPlaceVotes set_keys_init by auto
  have "tabulate_round currentOptions allVotes = eliminate currentOptions ?obj"
    using assms(1,2) by (simp add: tabulate_round_unfold)
  also have "\<dots> = (if filter (\<lambda>c. c \<notin> set el) currentOptions = []
         then Done (Inr (element0 el))
         else Continue (filter (\<lambda>c. c \<notin> set el) currentOptions))"
    unfolding eliminate_def eo by (simp add: Let_def)
  finally have "tabulate_round currentOptions allVotes =
       (if filter (\<lambda>c. c \<notin> set el) currentOptions = []
         then Done (Inr (element0 el))
         else Continue (filter (\<lambda>c. c \<notin> set el) currentOptions))" .
  with eo nel s sub show ?thesis unfolding m_def by blast
qed

text \<open>
  An election: A and B tie at one vote, C has two of four, and the round removes A and B
  together.
\<close>

lemma simultaneous_elimination_example:
  "eliminatedOptions (firstPlaceVotes [''A'', ''B'', ''C'']
      [[''A'', ''B'', ''C''], [''B'', ''A'', ''C''], [''C'', ''B'', ''A''], [''C'', ''A'', ''B'']])
     = Inr [''A'', ''B'']
   \<and> tabulate_round [''A'', ''B'', ''C'']
      [[''A'', ''B'', ''C''], [''B'', ''A'', ''C''], [''C'', ''B'', ''A''], [''C'', ''A'', ''B'']]
     = Continue [''C'']"
  by (simp add: round_eval)

text \<open>
  C3. In a round without a strict majority, every candidate of the working set whose
  tally is the least of that round is removed, all of them in that round. The removal is
  a single filter (lemma \<open>simultaneous_elimination\<close>), but the least tally is taken over the entries of the
  tally object only, and a candidate named \<open>__proto__\<close> has none. Evaluated: with the
  candidates \<open>__proto__\<close>, A and B and two full ballots that both rank \<open>__proto__\<close>
  last, that candidate has no first preference, the least tally of the round, and A and B
  have one each; the round removes A and B, keeps \<open>__proto__\<close>, and the function returns
  it. The same election with that candidate named X removes X in the first round and
  returns A.
\<close>

theorem least_tally_candidate_kept:
  "ballots_for [''__proto__'', ''A'', ''B'']
      [[''A'', ''B'', ''__proto__''], [''B'', ''A'', ''__proto__'']] ''__proto__'' = 0
   \<and> ballots_for [''__proto__'', ''A'', ''B'']
      [[''A'', ''B'', ''__proto__''], [''B'', ''A'', ''__proto__'']] ''A'' = 1
   \<and> ballots_for [''__proto__'', ''A'', ''B'']
      [[''A'', ''B'', ''__proto__''], [''B'', ''A'', ''__proto__'']] ''B'' = 1
   \<and> eliminatedOptions (firstPlaceVotes [''__proto__'', ''A'', ''B'']
      [[''A'', ''B'', ''__proto__''], [''B'', ''A'', ''__proto__'']]) = Inr [''A'', ''B'']
   \<and> tabulate_round [''__proto__'', ''A'', ''B'']
      [[''A'', ''B'', ''__proto__''], [''B'', ''A'', ''__proto__'']] = Continue [''__proto__'']
   \<and> calculateRankedChoiceWinner [''__proto__'', ''A'', ''B'']
      [[''A'', ''B'', ''__proto__''], [''B'', ''A'', ''__proto__'']] = Inr (Str ''__proto__'')
   \<and> tabulate_round [''X'', ''A'', ''B'']
      [[''A'', ''B'', ''X''], [''B'', ''A'', ''X'']] = Continue [''A'', ''B'']
   \<and> calculateRankedChoiceWinner [''X'', ''A'', ''B'']
      [[''A'', ''B'', ''X''], [''B'', ''A'', ''X'']] = Inr (Str ''A'')"
  by (simp add: ballots_for_def calculateRankedChoiceWinner_def round_eval)

text \<open>
  C4, as amended. When the elimination removes every candidate of the working set, the
  function does not fail: it returns \<open>eliminatedOptions[0]\<close>, a member of the working set
  and of the candidates just eliminated. All of them have the same tally, so their order
  is the order in which \<open>Object.entries\<close> lists the keys of the tally object, which is
  not always the catalog's: identifiers that are array indices (\<open>0\<close>, \<open>1\<close>, \<open>42\<close>, ...)
  come first, in ascending numeric order, and the other identifiers follow in catalog
  order. The candidate returned is the array index of least value when the working set
  holds one, and the first candidate of the working set otherwise.
\<close>

theorem fallback_returns_first_key:
  assumes "length currentOptions \<noteq> 1"
    and "winner currentOptions (firstPlaceVotes currentOptions allVotes)
           (majorityThreshold allVotes) = None"
    and "eliminatedOptions (firstPlaceVotes currentOptions allVotes) = Inr eliminated"
    and "filter (\<lambda>option. option \<notin> set eliminated) currentOptions = []"
  shows "\<exists>e. tabulate_round currentOptions allVotes = Done (Inr (Str e))
     \<and> elimination_loop currentOptions allVotes = Inr (Str e)
     \<and> e \<in> set currentOptions \<and> e \<in> set eliminated
     \<and> ((\<exists>c\<in>set currentOptions. is_array_index c) \<longrightarrow>
          is_array_index e
          \<and> (\<forall>c\<in>set currentOptions. is_array_index c \<longrightarrow> index_value e \<le> index_value c))
     \<and> ((\<forall>c\<in>set currentOptions. \<not> is_array_index c) \<longrightarrow>
          (\<exists>rest. currentOptions = e # rest))"
proof -
  define obj where "obj = firstPlaceVotes currentOptions allVotes"
  define m where "m = Min (snd ` set obj)"
  have eo: "eliminatedOptions obj = Inr eliminated" using assms(3) by (simp add: obj_def)
  have ne: "obj \<noteq> []" using eo by (auto simp: eliminatedOptions_def sortedVotes_def object_entries_def)
  have d: "distinct (map fst obj)" by (simp add: obj_def keys_firstPlaceVotes distinct_keys_init)
  have keys: "set (map fst obj) = set currentOptions - {proto_key}"
    unfolding obj_def keys_firstPlaceVotes by (rule set_keys_init)
  have el: "eliminated = map fst (filter (\<lambda>e. snd e = m) (object_entries obj))"
    using eliminatedOptions_min[OF ne] eo by (simp add: m_def)
  then have sel: "set eliminated = {k. obj_get obj k = Some m}"
    using set_eliminated[OF d] by simp
  from assms(4) have all: "\<forall>c\<in>set currentOptions. obj_get obj c = Some m"
    unfolding sel by (auto simp: filter_empty_conv)
  have np: "proto_key \<notin> set currentOptions"
  proof
    assume "proto_key \<in> set currentOptions"
    with all have "obj_get obj proto_key = Some m" by blast
    then show False by (simp add: obj_def get_firstPlaceVotes)
  qed
  with keys have keys': "set (map fst obj) = set currentOptions" by simp
  have "\<forall>x\<in>set obj. snd x = m"
  proof
    fix x assume x: "x \<in> set obj"
    then have "fst x \<in> set currentOptions" using keys' by force
    with all have "map_of obj (fst x) = Some m" by (simp add: obj_get_def)
    moreover from x d have "map_of obj (fst x) = Some (snd x)" by simp
    ultimately show "snd x = m" by simp
  qed
  then have "filter (\<lambda>e. snd e = m) (object_entries obj) = object_entries obj"
    by (simp add: set_object_entries)
  with el have el': "eliminated = map fst (object_entries obj)" by simp
  from hd_object_entries[OF ne] obtain x rest where
    oe: "object_entries obj = x # rest" and x: "x \<in> set obj"
    and arr: "(\<exists>y\<in>set obj. is_array_index (fst y)) \<longrightarrow>
          is_array_index (fst x)
          \<and> (\<forall>y\<in>set obj. is_array_index (fst y) \<longrightarrow> index_value (fst x) \<le> index_value (fst y))"
    and str: "(\<forall>y\<in>set obj. \<not> is_array_index (fst y)) \<longrightarrow> (\<exists>rest'. obj = x # rest')"
    by blast
  have e0: "element0 eliminated = Str (fst x)" by (simp add: el' oe element0_def)
  have "tabulate_round currentOptions allVotes = eliminate currentOptions obj"
    using assms(1,2) by (simp add: tabulate_round_unfold obj_def)
  also have "\<dots> = Done (Inr (Str (fst x)))"
    by (simp add: eliminate_def eo assms(4) e0)
  finally have r: "tabulate_round currentOptions allVotes = Done (Inr (Str (fst x)))" .
  then have l: "elimination_loop currentOptions allVotes = Inr (Str (fst x))"
    by (subst elimination_loop.simps) simp
  have mem: "fst x \<in> set currentOptions" using x keys' by force
  have mem': "fst x \<in> set eliminated" by (simp add: el' oe)
  have a: "(\<exists>c\<in>set currentOptions. is_array_index c) \<longrightarrow>
          is_array_index (fst x)
          \<and> (\<forall>c\<in>set currentOptions. is_array_index c \<longrightarrow> index_value (fst x) \<le> index_value c)"
  proof
    assume "\<exists>c\<in>set currentOptions. is_array_index c"
    then have "\<exists>y\<in>set obj. is_array_index (fst y)" using keys' by force
    with arr have ax: "is_array_index (fst x)"
      and le: "\<forall>y\<in>set obj. is_array_index (fst y) \<longrightarrow> index_value (fst x) \<le> index_value (fst y)"
      by blast+
    have "\<forall>c\<in>set currentOptions. is_array_index c \<longrightarrow> index_value (fst x) \<le> index_value c"
    proof (intro ballI impI)
      fix c assume "c \<in> set currentOptions" "is_array_index c"
      then obtain y where "y \<in> set obj" "fst y = c" using keys' by force
      with le \<open>is_array_index c\<close> show "index_value (fst x) \<le> index_value c" by auto
    qed
    with ax show "is_array_index (fst x)
          \<and> (\<forall>c\<in>set currentOptions. is_array_index c \<longrightarrow> index_value (fst x) \<le> index_value c)"
      by simp
  qed
  have b: "(\<forall>c\<in>set currentOptions. \<not> is_array_index c) \<longrightarrow>
          (\<exists>rest. currentOptions = fst x # rest)"
  proof
    assume no: "\<forall>c\<in>set currentOptions. \<not> is_array_index c"
    then have "\<forall>y\<in>set obj. \<not> is_array_index (fst y)" using keys' by force
    with str obtain rest' where o: "obj = x # rest'" by blast
    from mem obtain c cs where cur: "currentOptions = c # cs" by (cases currentOptions) auto
    with np have "c \<noteq> proto_key" by auto
    from keys_init_Cons[OF this, of cs] obtain ks where "map fst (init_votes currentOptions) = c # ks"
      using cur by auto
    then have "map fst obj = c # ks" by (simp add: obj_def keys_firstPlaceVotes)
    with o have "fst x = c" by simp
    with cur show "\<exists>rest. currentOptions = fst x # rest" by simp
  qed
  from r l mem mem' a b show ?thesis by blast
qed

theorem fallback_returns_first_key_witness:
  "length [''A'', ''B''] \<noteq> 1
   \<and> winner [''A'', ''B''] (firstPlaceVotes [''A'', ''B''] [[''A'', ''B''], [''B'', ''A'']])
        (majorityThreshold [[''A'', ''B''], [''B'', ''A'']]) = None
   \<and> eliminatedOptions (firstPlaceVotes [''A'', ''B''] [[''A'', ''B''], [''B'', ''A'']])
       = Inr [''A'', ''B'']
   \<and> filter (\<lambda>option. option \<notin> set [''A'', ''B'']) [''A'', ''B''] = []
   \<and> tabulate_round [''A'', ''B''] [[''A'', ''B''], [''B'', ''A'']] = Done (Inr (Str ''A''))
   \<and> elimination_loop [''A'', ''B''] [[''A'', ''B''], [''B'', ''A'']] = Inr (Str ''A'')"
proof -
  let ?cur = "[''A'', ''B'']"
  let ?votes = "[[''A'', ''B''], [''B'', ''A'']]"
  have h1: "length ?cur \<noteq> 1" by simp
  have h2: "winner ?cur (firstPlaceVotes ?cur ?votes) (majorityThreshold ?votes) = None"
    by (simp add: round_eval)
  have h3: "eliminatedOptions (firstPlaceVotes ?cur ?votes) = Inr [''A'', ''B'']"
    by (simp add: round_eval)
  have h4: "filter (\<lambda>option. option \<notin> set [''A'', ''B'']) ?cur = []" by simp
  have h5: "\<forall>c\<in>set ?cur. \<not> is_array_index c"
    by (simp add: is_array_index_def is_digit_def)
  from fallback_returns_first_key[OF h1 h2 h3 h4] obtain e where
    r: "tabulate_round ?cur ?votes = Done (Inr (Str e))"
    and l: "elimination_loop ?cur ?votes = Inr (Str e)"
    and f: "(\<forall>c\<in>set ?cur. \<not> is_array_index c) \<longrightarrow> (\<exists>rest. ?cur = e # rest)"
    by blast
  from f h5 have "e = ''A''" by blast
  with r l h1 h2 h3 h4 show ?thesis by blast
qed

text \<open>
  The claim as stated, refuted: with the catalog \<open>2, 1\<close> and one ballot for each, both
  candidates are eliminated, listed as \<open>1, 2\<close>, and the function returns \<open>1\<close>, which is
  the last of the eliminated candidates in catalog order.
\<close>

theorem numeric_names_counterexample:
  "eliminatedOptions (firstPlaceVotes [''2'', ''1''] [[''2'', ''1''], [''1'', ''2'']]) = Inr [''1'', ''2'']
   \<and> calculateRankedChoiceWinner [''2'', ''1''] [[''2'', ''1''], [''1'', ''2'']] = Inr (Str ''1'')"
  by (simp add: calculateRankedChoiceWinner_def round_eval)

text \<open>
  C5. A ballot is exhausted in a round when \<open>first_choice\<close> finds none of its entries in
  the working set. In every round (for every working set), the tallies are those of the
  ballots that are not exhausted, while the round decides against half the number of all
  ballots, exhausted or not: a round with more than one candidate (or none) returns a
  candidate whose tally is above half of the sum of both counts, and goes on to the
  elimination when no tally is above half of that sum, however many of the ballots are
  exhausted. One more exhausted ballot leaves every tally as it is and raises the
  threshold by one half. After a round that loops, the next round is run on the same
  ballot list, so the denominator is \<open>allVotes.length\<close> in every later round as well.
\<close>

theorem exhausted_ballots_keep_threshold:
  "firstPlaceVotes currentOptions allVotes
     = firstPlaceVotes currentOptions (live_ballots currentOptions allVotes)
   \<and> majorityThreshold allVotes
     = (real (length (live_ballots currentOptions allVotes))
        + real (length (exhausted_ballots currentOptions allVotes))) / 2
   \<and> (length currentOptions \<noteq> 1 \<and> c \<in> set currentOptions
        \<and> obj_get (firstPlaceVotes currentOptions allVotes) c = Some n
        \<and> length (live_ballots currentOptions allVotes)
            + length (exhausted_ballots currentOptions allVotes) < 2 * n
      \<longrightarrow> tabulate_round currentOptions allVotes = Done (Inr (Str c)))
   \<and> (length currentOptions \<noteq> 1
        \<and> (\<forall>c' n'. c' \<in> set currentOptions
              \<and> obj_get (firstPlaceVotes currentOptions allVotes) c' = Some n'
              \<longrightarrow> 2 * n' \<le> length (live_ballots currentOptions allVotes)
                    + length (exhausted_ballots currentOptions allVotes))
      \<longrightarrow> tabulate_round currentOptions allVotes
            = eliminate currentOptions (firstPlaceVotes currentOptions allVotes))
   \<and> (first_choice currentOptions vote = None \<longrightarrow>
        firstPlaceVotes currentOptions (allVotes @ [vote]) = firstPlaceVotes currentOptions allVotes
        \<and> majorityThreshold (allVotes @ [vote]) = majorityThreshold allVotes + 1 / 2)
   \<and> (tabulate_round currentOptions allVotes = Continue remaining \<longrightarrow>
        elimination_loop currentOptions allVotes =
          (case tabulate_round remaining allVotes of
             Done r \<Rightarrow> r
           | Continue remaining' \<Rightarrow> elimination_loop remaining' allVotes))"
proof (intro conjI impI)
  show "firstPlaceVotes currentOptions allVotes
     = firstPlaceVotes currentOptions (live_ballots currentOptions allVotes)"
    unfolding live_ballots_def firstPlaceVotes_closed ballots_for_live ..
next
  show "majorityThreshold allVotes
     = (real (length (live_ballots currentOptions allVotes))
        + real (length (exhausted_ballots currentOptions allVotes))) / 2"
    using length_live_exhausted[of currentOptions allVotes]
    by (simp add: majorityThreshold_def flip: of_nat_add)
next
  assume a: "length currentOptions \<noteq> 1 \<and> c \<in> set currentOptions
        \<and> obj_get (firstPlaceVotes currentOptions allVotes) c = Some n
        \<and> length (live_ballots currentOptions allVotes)
            + length (exhausted_ballots currentOptions allVotes) < 2 * n"
  then have "length allVotes < 2 * n"
    by (simp add: length_live_exhausted)
  then have "real (length allVotes) / 2 < real n" by linarith
  with a have "exceeds (firstPlaceVotes currentOptions allVotes) (majorityThreshold allVotes) c"
    by (simp add: exceeds_def majorityThreshold_def)
  with a have "winner currentOptions (firstPlaceVotes currentOptions allVotes)
      (majorityThreshold allVotes) = Some c"
    by (simp only: winner_scan_iff)
  with a show "tabulate_round currentOptions allVotes = Done (Inr (Str c))"
    by (simp add: tabulate_round_unfold)
next
  assume a: "length currentOptions \<noteq> 1
        \<and> (\<forall>c' n'. c' \<in> set currentOptions
              \<and> obj_get (firstPlaceVotes currentOptions allVotes) c' = Some n'
              \<longrightarrow> 2 * n' \<le> length (live_ballots currentOptions allVotes)
                    + length (exhausted_ballots currentOptions allVotes))"
  have "\<forall>c'\<in>set currentOptions.
      \<not> exceeds (firstPlaceVotes currentOptions allVotes) (majorityThreshold allVotes) c'"
  proof
    fix c' assume c': "c' \<in> set currentOptions"
    show "\<not> exceeds (firstPlaceVotes currentOptions allVotes) (majorityThreshold allVotes) c'"
    proof
      assume "exceeds (firstPlaceVotes currentOptions allVotes) (majorityThreshold allVotes) c'"
      then obtain n' where n': "obj_get (firstPlaceVotes currentOptions allVotes) c' = Some n'"
        and gt: "real (length allVotes) / 2 < real n'"
        by (auto simp: exceeds_def majorityThreshold_def split: option.splits)
      from a c' n' have "2 * n' \<le> length allVotes"
        by (simp add: length_live_exhausted)
      with gt show False by linarith
    qed
  qed
  then have "winner currentOptions (firstPlaceVotes currentOptions allVotes)
      (majorityThreshold allVotes) = None"
    by (simp add: winner_def find_None_iff)
  with a show "tabulate_round currentOptions allVotes
            = eliminate currentOptions (firstPlaceVotes currentOptions allVotes)"
    by (simp add: tabulate_round_unfold)
next
  assume "first_choice currentOptions vote = None"
  then show "firstPlaceVotes currentOptions (allVotes @ [vote]) = firstPlaceVotes currentOptions allVotes"
    by (simp add: firstPlaceVotes_def count_vote_def)
next
  show "majorityThreshold (allVotes @ [vote]) = majorityThreshold allVotes + 1 / 2"
    by (simp add: majorityThreshold_def add_divide_distrib)
next
  assume c: "tabulate_round currentOptions allVotes = Continue remaining"
  have "elimination_loop currentOptions allVotes = elimination_loop remaining allVotes"
    by (subst elimination_loop.simps) (simp add: c)
  also have "\<dots> = (case tabulate_round remaining allVotes of
             Done r \<Rightarrow> r
           | Continue remaining' \<Rightarrow> elimination_loop remaining' allVotes)"
    by (rule elimination_loop.simps)
  finally show "elimination_loop currentOptions allVotes =
          (case tabulate_round remaining allVotes of
             Done r \<Rightarrow> r
           | Continue remaining' \<Rightarrow> elimination_loop remaining' allVotes)" .
qed

theorem exhausted_ballots_keep_threshold_witness:
  "length [''A'', ''B''] \<noteq> 1 \<and> ''A'' \<in> set [''A'', ''B'']
   \<and> obj_get (firstPlaceVotes [''A'', ''B''] [[''A''], [''A''], [''A''], [''B''], [''B'']]) ''A''
       = Some 3
   \<and> length (live_ballots [''A'', ''B''] [[''A''], [''A''], [''A''], [''B''], [''B'']])
       + length (exhausted_ballots [''A'', ''B''] [[''A''], [''A''], [''A''], [''B''], [''B'']])
       < 2 * 3
   \<and> tabulate_round [''A'', ''B''] [[''A''], [''A''], [''A''], [''B''], [''B'']]
       = Done (Inr (Str ''A''))
   \<and> first_choice [''A'', ''B''] [''C''] = None
   \<and> firstPlaceVotes [''A'', ''B''] ([[''A''], [''A''], [''A''], [''B''], [''B'']] @ [[''C'']])
       = firstPlaceVotes [''A'', ''B''] [[''A''], [''A''], [''A''], [''B''], [''B'']]
   \<and> majorityThreshold ([[''A''], [''A''], [''A''], [''B''], [''B'']] @ [[''C'']])
       = majorityThreshold [[''A''], [''A''], [''A''], [''B''], [''B'']] + 1 / 2
   \<and> obj_get (firstPlaceVotes [''A'', ''B''] [[''A''], [''A''], [''A''], [''B''], [''B''], [''C'']])
        ''A'' = Some 3
   \<and> obj_get (firstPlaceVotes [''A'', ''B''] [[''A''], [''A''], [''A''], [''B''], [''B''], [''C'']])
        ''B'' = Some 2
   \<and> length (live_ballots [''A'', ''B''] [[''A''], [''A''], [''A''], [''B''], [''B''], [''C'']]) = 5
   \<and> length (exhausted_ballots [''A'', ''B'']
        [[''A''], [''A''], [''A''], [''B''], [''B''], [''C'']]) = 1
   \<and> tabulate_round [''A'', ''B''] [[''A''], [''A''], [''A''], [''B''], [''B''], [''C'']]
       = Continue [''A'']
   \<and> tabulate_round [''A'', ''B'', ''C''] [[''A''], [''A''], [''A''], [''B''], [''B''], [''C'']]
       = Continue [''A'', ''B'']
   \<and> elimination_loop [''A'', ''B'', ''C''] [[''A''], [''A''], [''A''], [''B''], [''B''], [''C'']]
       = elimination_loop [''A''] [[''A''], [''A''], [''A''], [''B''], [''B''], [''C'']]"
proof -
  let ?cur = "[''A'', ''B'']"
  let ?votes = "[[''A''], [''A''], [''A''], [''B''], [''B'']]"
  let ?all = "[[''A''], [''A''], [''A''], [''B''], [''B''], [''C'']]"
  have h1: "length ?cur \<noteq> 1 \<and> ''A'' \<in> set ?cur" by simp
  have h2: "obj_get (firstPlaceVotes ?cur ?votes) ''A'' = Some 3"
    by (simp add: round_eval)
  have h3: "length (live_ballots ?cur ?votes) + length (exhausted_ballots ?cur ?votes) < 2 * 3"
    by (simp add: live_ballots_def exhausted_ballots_def first_choice_def)
  have h4: "first_choice ?cur [''C''] = None" by (simp add: first_choice_def)
  have h5: "obj_get (firstPlaceVotes ?cur ?all) ''A'' = Some 3"
    by (simp add: round_eval)
  have h6: "obj_get (firstPlaceVotes ?cur ?all) ''B'' = Some 2"
    by (simp add: round_eval)
  have h7: "length (live_ballots ?cur ?all) = 5"
    by (simp add: live_ballots_def first_choice_def)
  have h8: "length (exhausted_ballots ?cur ?all) = 1"
    by (simp add: exhausted_ballots_def first_choice_def)
  have h9: "tabulate_round [''A'', ''B'', ''C''] ?all = Continue ?cur"
    by (simp add: round_eval)
  have h10: "\<forall>c' n'. c' \<in> set ?cur \<and> obj_get (firstPlaceVotes ?cur ?all) c' = Some n'
      \<longrightarrow> 2 * n' \<le> length (live_ballots ?cur ?all) + length (exhausted_ballots ?cur ?all)"
    unfolding h7 h8 using h5 h6 by auto
  have e: "eliminate ?cur (firstPlaceVotes ?cur ?all) = Continue [''A'']"
    by (simp add: round_eval)
  note t = exhausted_ballots_keep_threshold[of ?cur ?votes "''A''" 3 "[''C'']"]
  from t h1 h2 h3 have c1: "tabulate_round ?cur ?votes = Done (Inr (Str ''A''))"
    by blast
  from t h4 have c2: "firstPlaceVotes ?cur (?votes @ [[''C'']]) = firstPlaceVotes ?cur ?votes"
    and c3: "majorityThreshold (?votes @ [[''C'']]) = majorityThreshold ?votes + 1 / 2"
    by blast+
  from exhausted_ballots_keep_threshold[of ?cur ?all] h1 h10
  have "tabulate_round ?cur ?all = eliminate ?cur (firstPlaceVotes ?cur ?all)"
    by blast
  with e have c4: "tabulate_round ?cur ?all = Continue [''A'']" by simp
  from exhausted_ballots_keep_threshold[of "[''A'', ''B'', ''C'']" ?all _ _ _ ?cur] h9
  have "elimination_loop [''A'', ''B'', ''C''] ?all =
      (case tabulate_round ?cur ?all of
         Done r \<Rightarrow> r
       | Continue remaining' \<Rightarrow> elimination_loop remaining' ?all)"
    by blast
  with c4 have c5: "elimination_loop [''A'', ''B'', ''C''] ?all = elimination_loop [''A''] ?all"
    by simp
  from h1 h2 h3 h4 h5 h6 h7 h8 h9 c1 c2 c3 c4 c5 show ?thesis by blast
qed

text \<open>
  In the second round of the witness's election the ballot for C is exhausted: A holds
  three of the five ballots that still count, which is not above half of six, so the
  round does not return A but eliminates B, and the election takes three passes. Without
  the exhausted ballot, the same round returns A at once.
\<close>

lemma exhausted_ballots_example:
  "run_rounds 2 [''A'', ''B'', ''C''] [[''A''], [''A''], [''A''], [''B''], [''B''], [''C'']] = None
   \<and> run_rounds 3 [''A'', ''B'', ''C''] [[''A''], [''A''], [''A''], [''B''], [''B''], [''C'']]
       = Some (Inr (Str ''A''))
   \<and> run_rounds 1 [''A'', ''B''] [[''A''], [''A''], [''A''], [''B''], [''B'']]
       = Some (Inr (Str ''A''))"
  by (simp add: numeral_2_eq_2 numeral_3_eq_3 round_eval)

text \<open>
  C6, as amended. With an empty ballot list the function returns the string
  \<open>No votes submitted yet.\<close>, whatever the catalog is (empty or not), and throws no
  exception. The string returned is no identifier of the catalog unless the catalog
  itself holds the identifier \<open>No votes submitted yet.\<close>: the sentinel is an ordinary
  string, as under C1.
\<close>

theorem empty_ballots_sentinel:
  "calculateRankedChoiceWinner options [] = Inr (Str ''No votes submitted yet.'')
   \<and> (''No votes submitted yet.'' \<notin> set options \<longrightarrow>
        (\<forall>c\<in>set options. calculateRankedChoiceWinner options [] \<noteq> Inr (Str c)))"
  by (auto simp: calculateRankedChoiceWinner_def sentinel_def)

theorem empty_ballots_sentinel_witness:
  "''No votes submitted yet.'' \<notin> set [''A'', ''B'', ''C'']
   \<and> calculateRankedChoiceWinner [''A'', ''B'', ''C''] [] = Inr (Str ''No votes submitted yet.'')
   \<and> calculateRankedChoiceWinner [''A'', ''B'', ''C''] [] \<noteq> Inr (Str ''A'')
   \<and> calculateRankedChoiceWinner [''A'', ''B'', ''C''] [] \<noteq> Inr (Str ''B'')
   \<and> calculateRankedChoiceWinner [''A'', ''B'', ''C''] [] \<noteq> Inr (Str ''C'')"
proof -
  have h: "''No votes submitted yet.'' \<notin> set [''A'', ''B'', ''C'']" by simp
  have m: "''A'' \<in> set [''A'', ''B'', ''C'']" "''B'' \<in> set [''A'', ''B'', ''C'']"
    "''C'' \<in> set [''A'', ''B'', ''C'']" by simp_all
  from empty_ballots_sentinel[of "[''A'', ''B'', ''C'']"] h m show ?thesis by blast
qed

text \<open>
  The claim as stated, refuted: with a catalog that holds the identifier
  \<open>No votes submitted yet.\<close> and no ballots, the string returned is a member of the
  catalog.
\<close>

theorem sentinel_in_catalog_counterexample:
  "''No votes submitted yet.'' \<in> set [''No votes submitted yet.'', ''A'']
   \<and> calculateRankedChoiceWinner [''No votes submitted yet.'', ''A''] []
       = Inr (Str ''No votes submitted yet.'')"
  by (simp add: calculateRankedChoiceWinner_def sentinel_def)

text \<open>
  C7, as amended. The function is not total: with an empty catalog and at least one
  ballot, \<open>sortedVotes\<close> is empty and \<open>sortedVotes[0][1]\<close> throws a TypeError (and so
  does a catalog that repeats \<open>__proto__\<close>, as under C1). What holds: for every
  non-empty catalog in which \<open>__proto__\<close> occurs at most once and every ballot list, empty
  or not and with ballots of any content, the function returns a string and does not
  throw; the empty catalog returns the sentinel for the empty ballot list and throws for
  every other ballot list.
\<close>

theorem total_on_nonempty_catalog:
  "(options \<noteq> [] \<and> count_list options proto_key \<le> 1 \<longrightarrow>
      (\<exists>v. calculateRankedChoiceWinner options allVotes = Inr (Str v)))
   \<and> calculateRankedChoiceWinner [] [] = Inr (Str sentinel)
   \<and> (allVotes \<noteq> [] \<longrightarrow> calculateRankedChoiceWinner [] allVotes = Inl TypeError)"
proof (intro conjI impI)
  assume a: "options \<noteq> [] \<and> count_list options proto_key \<le> 1"
  show "\<exists>v. calculateRankedChoiceWinner options allVotes = Inr (Str v)"
  proof (cases "allVotes = []")
    case True
    then show ?thesis by (simp add: calculateRankedChoiceWinner_def)
  next
    case False
    from a have "\<exists>c. c \<in> set options \<and> elimination_loop options allVotes = Inr (Str c)"
      by (intro elimination_loop_returns) auto
    with False show ?thesis by (auto simp: calculateRankedChoiceWinner_def)
  qed
next
  show "calculateRankedChoiceWinner [] [] = Inr (Str sentinel)"
    by (simp add: calculateRankedChoiceWinner_def)
next
  assume "allVotes \<noteq> []"
  moreover have "firstPlaceVotes [] allVotes = []"
    by (simp add: firstPlaceVotes_Nil_iff)
  then have "tabulate_round [] allVotes = Done (Inl TypeError)"
    by (simp add: tabulate_round_def winner_def eliminate_def eliminatedOptions_def
        sortedVotes_def object_entries_def)
  ultimately show "calculateRankedChoiceWinner [] allVotes = Inl TypeError"
    by (simp add: calculateRankedChoiceWinner_def)
qed

theorem total_on_nonempty_catalog_witness:
  "[''A'', ''B''] \<noteq> [] \<and> count_list [''A'', ''B''] proto_key \<le> 1
   \<and> (\<exists>v. calculateRankedChoiceWinner [''A'', ''B''] [[''zzz''], [''B'', ''B'']] = Inr (Str v))
   \<and> [[''A'']] \<noteq> ([] :: ballot list)
   \<and> calculateRankedChoiceWinner [] [[''A'']] = Inl TypeError"
proof -
  have h1: "[''A'', ''B''] \<noteq> [] \<and> count_list [''A'', ''B''] proto_key \<le> 1"
    by (simp add: proto_key_def)
  have h2: "[[''A'']] \<noteq> ([] :: ballot list)" by simp
  from total_on_nonempty_catalog[of "[''A'', ''B'']" "[[''zzz''], [''B'', ''B'']]"] h1
  have "\<exists>v. calculateRankedChoiceWinner [''A'', ''B''] [[''zzz''], [''B'', ''B'']] = Inr (Str v)"
    by blast
  moreover from total_on_nonempty_catalog[of "[]" "[[''A'']]"] h2
  have "calculateRankedChoiceWinner [] [[''A'']] = Inl TypeError"
    by blast
  ultimately show ?thesis using h1 h2 by blast
qed

theorem empty_catalog_throws_counterexample:
  "calculateRankedChoiceWinner [] [[''A'', ''B'']] = Inl TypeError
   \<and> calculateRankedChoiceWinner [''__proto__'', ''__proto__''] [[''A'', ''B'']] = Inl TypeError"
  by (simp add: calculateRankedChoiceWinner_def round_eval)

text \<open>
  C8. For a non-empty catalog and a non-empty ballot list, the loop ends within
  \<open>length options\<close> passes through its body: \<open>run_rounds\<close>, which gives up after the
  given number of passes, yields the function's outcome with that budget. Every pass that
  loops back leaves a strictly shorter working set. The outcome is a returned candidate
  whenever \<open>__proto__\<close> occurs at most once in the catalog (otherwise it can be the
  exception of C1 and C7, which ends the loop as well).
\<close>

theorem loop_bounded:
  assumes "options \<noteq> []" and "allVotes \<noteq> []"
  shows "run_rounds (length options) options allVotes
           = Some (calculateRankedChoiceWinner options allVotes)
       \<and> (\<forall>currentOptions remaining.
            tabulate_round currentOptions allVotes = Continue remaining \<longrightarrow>
              length remaining < length currentOptions)
       \<and> (count_list options proto_key \<le> 1 \<longrightarrow>
            (\<exists>c. calculateRankedChoiceWinner options allVotes = Inr (Str c)))"
proof (intro conjI allI impI)
  show "run_rounds (length options) options allVotes
          = Some (calculateRankedChoiceWinner options allVotes)"
    using assms run_rounds_enough[of options "length options" allVotes]
    by (simp add: calculateRankedChoiceWinner_def)
next
  fix currentOptions remaining
  assume "tabulate_round currentOptions allVotes = Continue remaining"
  then show "length remaining < length currentOptions"
    by (rule tabulate_round_Continue(1))
next
  assume "count_list options proto_key \<le> 1"
  with elimination_loop_returns[OF assms(1), of allVotes] assms(2)
  show "\<exists>c. calculateRankedChoiceWinner options allVotes = Inr (Str c)"
    by (auto simp: calculateRankedChoiceWinner_def)
qed

theorem loop_bounded_witness:
  "[''A'', ''B'', ''C''] \<noteq> []
   \<and> [[''A''], [''A''], [''C''], [''C''], [''C'', ''B''], [''B'']] \<noteq> ([] :: ballot list)
   \<and> run_rounds (length [''A'', ''B'', ''C'']) [''A'', ''B'', ''C'']
        [[''A''], [''A''], [''C''], [''C''], [''C'', ''B''], [''B'']]
       = Some (calculateRankedChoiceWinner [''A'', ''B'', ''C'']
           [[''A''], [''A''], [''C''], [''C''], [''C'', ''B''], [''B'']])"
proof -
  have h1: "[''A'', ''B'', ''C''] \<noteq> ([] :: string list)" by simp
  have h2: "[[''A''], [''A''], [''C''], [''C''], [''C'', ''B''], [''B'']] \<noteq> ([] :: ballot list)" by simp
  from loop_bounded[OF h1 h2] h1 h2 show ?thesis by blast
qed

text \<open>The bound is reached: this election needs all three passes.\<close>

lemma loop_bound_reached:
  "run_rounds 2 [''A'', ''B'', ''C''] [[''A''], [''A''], [''C''], [''C''], [''C'', ''B''], [''B'']] = None
   \<and> run_rounds 3 [''A'', ''B'', ''C''] [[''A''], [''A''], [''C''], [''C''], [''C'', ''B''], [''B'']]
       = Some (Inr (Str ''C''))"
  by (simp add: numeral_2_eq_2 numeral_3_eq_3 round_eval)

text \<open>
  C9. The function is a function of the catalog and of the multiset of ballots: two ballot
  lists that are permutations of each other give the same outcome for every catalog, also
  when the outcome is decided by the fallback of line 731 (and also when it is an
  exception).
\<close>

theorem ballot_order_irrelevant:
  assumes "mset allVotes = mset allVotes'"
  shows "calculateRankedChoiceWinner options allVotes = calculateRankedChoiceWinner options allVotes'"
proof -
  have "length allVotes = length allVotes'" using assms by (metis size_mset)
  with elimination_loop_mset[OF assms] show ?thesis
    by (simp add: calculateRankedChoiceWinner_def)
qed

theorem ballot_order_irrelevant_witness:
  "mset [[''A'', ''B''], [''B'', ''A'']] = mset [[''B'', ''A''], [''A'', ''B'']]
   \<and> calculateRankedChoiceWinner [''A'', ''B''] [[''A'', ''B''], [''B'', ''A'']]
     = calculateRankedChoiceWinner [''A'', ''B''] [[''B'', ''A''], [''A'', ''B'']]"
proof -
  have h: "mset [[''A'', ''B''], [''B'', ''A'']] = mset [[''B'', ''A''], [''A'', ''B'']]"
    by (simp add: add_mset_commute)
  from ballot_order_irrelevant[OF h] h show ?thesis by blast
qed

text \<open>The witness's election is decided by the fallback: both candidates tie at one vote.\<close>

lemma fallback_example:
  "calculateRankedChoiceWinner [''A'', ''B''] [[''A'', ''B''], [''B'', ''A'']] = Inr (Str ''A'')"
  by (simp add: calculateRankedChoiceWinner_def round_eval)

text \<open>
  C10. Ballots with unknown entries, repeated entries or missing candidates do not make
  the function fail, and the unknown and the repeated entries are inert (lemmas
  \<open>foreign_entries_inert\<close> and \<open>repeated_entries_inert\<close>). The last part of the
  claim, that the function tallies the first entry of the ballot that lies in the working
  set, does not hold for two identifiers. A candidate named \<open>__proto__\<close> cannot be
  stored in the tally object: it is never counted and never eliminated. A candidate named
  by the empty string is found by \<open>find\<close> and then dropped by \<open>if (firstChoice)\<close>.
  Evaluated: with the candidates \<open>__proto__\<close>, A and B and five ballots, of which one
  has \<open>__proto__\<close> first, two A and two B, the tallies are two for A and two for B,
  both are eliminated, and \<open>__proto__\<close> is returned, where the same election with that
  candidate named X returns A; with the candidates \<open>''\<close>, A and B and the ballots
  \<open>['']\<close>, \<open>['']\<close>, \<open>['A']\<close>, the candidate with two of three first preferences has
  the tally 0 and A is returned, where the same election with that candidate named X
  returns X.
\<close>

theorem unstorable_candidate_not_tallied:
  "first_choice [''__proto__'', ''A'', ''B''] [''__proto__'', ''A''] = Some ''__proto__''
   \<and> firstPlaceVotes [''__proto__'', ''A'', ''B'']
        [[''__proto__'', ''A''], [''A''], [''A''], [''B''], [''B'']] = [(''A'', 2), (''B'', 2)]
   \<and> tabulate_round [''__proto__'', ''A'', ''B'']
        [[''__proto__'', ''A''], [''A''], [''A''], [''B''], [''B'']] = Continue [''__proto__'']
   \<and> calculateRankedChoiceWinner [''__proto__'', ''A'', ''B'']
        [[''__proto__'', ''A''], [''A''], [''A''], [''B''], [''B'']] = Inr (Str ''__proto__'')
   \<and> calculateRankedChoiceWinner [''X'', ''A'', ''B'']
        [[''X'', ''A''], [''A''], [''A''], [''B''], [''B'']] = Inr (Str ''A'')
   \<and> first_choice ['''', ''A'', ''B''] [''''] = Some ''''
   \<and> firstPlaceVotes ['''', ''A'', ''B''] [[''''], [''''], [''A'']]
       = [('''', 0), (''A'', 1), (''B'', 0)]
   \<and> calculateRankedChoiceWinner ['''', ''A'', ''B''] [[''''], [''''], [''A'']] = Inr (Str ''A'')
   \<and> calculateRankedChoiceWinner [''X'', ''A'', ''B''] [[''X''], [''X''], [''A'']] = Inr (Str ''X'')"
  by (simp add: calculateRankedChoiceWinner_def round_eval)

end
